theory Spec2Isabelle
  imports Main "HOL-Library.Sublist" "HOL-Library.Multiset"
begin

section \<open>The index browser component (IndexTree.svelte)\<close>

text \<open>
  The component keeps its state in module-level variables and reaches its collaborators
  (the bundle index, the schema database, the dat-file library) through calls whose
  code is elsewhere. The state is a record that every function takes and returns; the
  collaborators are the fields of an environment record passed to every function.
  A JavaScript string is a list of characters.
\<close>

subsection \<open>String operations of the JavaScript library\<close>

text \<open>\<open>s.endsWith(suf)\<close>.\<close>

definition endsWith :: "string \<Rightarrow> string \<Rightarrow> bool" where
  "endsWith s suf = suffix suf s"

text \<open>
  \<open>s.replace(pat, rep)\<close> with a string pattern: the first occurrence of \<open>pat\<close>,
  wherever it stands, is replaced, and a string without an occurrence is returned as it is.
  (The replacement strings of the component are empty, so the \<open>$\<close> patterns of a
  replacement string play no part.)
\<close>

fun replace_str :: "string \<Rightarrow> string \<Rightarrow> string \<Rightarrow> string" where
  "replace_str [] pat rep = (if pat = [] then rep else [])"
| "replace_str (c # cs) pat rep =
     (if prefix pat (c # cs) then rep @ drop (length pat) (c # cs)
      else c # replace_str cs pat rep)"

text \<open>\<open>s.split(sep)\<close> for a separator of one character: \<open>''''.split('/')\<close> is \<open>['''']\<close>.\<close>

fun split_str :: "char \<Rightarrow> string \<Rightarrow> string list" where
  "split_str sep [] = [[]]"
| "split_str sep (c # cs) =
     (if c = sep then [] # split_str sep cs
      else (case split_str sep cs of
              [] \<Rightarrow> [[c]]
            | p # ps \<Rightarrow> (c # p) # ps))"

text \<open>\<open>parts.join(sep)\<close>.\<close>

fun join_str :: "string \<Rightarrow> string list \<Rightarrow> string" where
  "join_str sep [] = []"
| "join_str sep [p] = p"
| "join_str sep (p # q # ps) = p @ sep @ join_str sep (q # ps)"

text \<open>
  The decimal digits of an array index, as the template literal \<open>`Unnamed ${index}`\<close>
  prints it.
\<close>

definition digit_char :: "nat \<Rightarrow> char" where
  "digit_char d = ''0123456789'' ! d"

function string_of_nat :: "nat \<Rightarrow> string" where
  "string_of_nat n =
     (if n < 10 then [digit_char n]
      else string_of_nat (n div 10) @ [digit_char (n mod 10)])"
  by pat_completeness auto
termination
  by (relation "measure id") auto

declare string_of_nat.simps [simp del]

subsection \<open>Data\<close>

text \<open>
  A thrown value, which is also the reason of a rejected promise. The component
  neither throws nor catches; only its collaborators throw.
\<close>

datatype exn = Exn string

text \<open>
  A header. The component reads and writes its \<open>name\<close> (a string or null) only; every
  other field (offset, type, length) is carried along unchanged in \<open>rest\<close>.
\<close>

record 'h header =
  name :: "string option"
  rest :: 'h

text \<open>
  The value of a cell, by what an assignment to \<open>__proto__\<close> makes of it: \<open>undefined\<close>
  (\<open>columns[index][i]\<close> when the column has no element \<open>i\<close>), \<open>null\<close>, a primitive
  value (a number, a bigint, a string, a boolean), or an object. An object is one that
  the dat library builds from the data of the file, an array or a record: its properties
  are writable data properties, none is named \<open>__proto__\<close>, and its prototype chain is the
  built-in one, which ends in \<open>Object.prototype\<close>.
\<close>

datatype 'v cell = Undefined | Null | Val 'v | Obj 'v

text \<open>
  A row is the object \<open>{ [key: string]: any }\<close>: its own properties, as a map from
  keys to cells. Equality of maps is the order-insensitive equality of rows.
\<close>

type_synonym 'v row = "string \<rightharpoonup> 'v cell"

text \<open>
  The prototype of a row while it is built: \<open>Object.prototype\<close>, which the literal
  \<open>{}\<close> gives it, a cell's object, or null.
\<close>

datatype 'v prototype = Object_prototype | Cell_prototype 'v | Null_prototype

record dir_content =
  files :: "string list"
  dirs :: "string list"

text \<open>
  The collaborators. A call that throws, or whose promise is rejected, returns \<open>Inl\<close>.
  \<open>getDirContent\<close> returns \<open>None\<close> for a falsy result; \<open>fromSerializedHeaders\<close> returns
  \<open>None\<close> for a falsy result and the \<open>headers\<close> field of its result otherwise.
  \<open>rowCount\<close> is the field \<open>datFile.rowCount\<close>. The nullable variables \<open>fileContent\<close>
  and \<open>datFile\<close> are passed to the collaborators as they are.
\<close>

record ('b, 'd, 'c, 's, 'h, 'v) env =
  getDirContent :: "string \<Rightarrow> dir_content option"
  index_loadFileContent :: "string \<Rightarrow> exn + 'b"
  readDatFile :: "string \<Rightarrow> 'b option \<Rightarrow> exn + 'd"
  rowCount :: "'d \<Rightarrow> nat"
  analyzeDatFile :: "'d \<Rightarrow> exn + 'c"
  findByName :: "string \<Rightarrow> exn + 's"
  fromSerializedHeaders :: "'s \<Rightarrow> 'c \<Rightarrow> 'd option \<Rightarrow> exn + 'h header list option"
  readColumn :: "'h header \<Rightarrow> 'd option \<Rightarrow> exn + 'v cell list"

text \<open>
  The variables of the component that its functions read or write. \<open>warnings\<close> is the
  output of \<open>console.warn\<close>. (The timing that \<open>extractRows\<close> prints with
  \<open>console.log\<close> is not part of the state.)
\<close>

record ('b, 'd, 'h, 'v) state =
  dirContents :: dir_content
  fileContent :: "'b option"
  headers :: "'h header list"
  currentPath :: string
  datFile :: "'d option"
  rows :: "'v row list"
  searchTerm :: string
  loading :: bool
  warnings :: "string list"

subsection \<open>Directories\<close>

text \<open>
  \<open>loadDirContents\<close> is declared async and awaits nothing: it runs to its end when called.
\<close>

definition loadDirContents ::
  "('b, 'd, 'c, 's, 'h, 'v) env \<Rightarrow> string \<Rightarrow> ('b, 'd, 'h, 'v) state \<Rightarrow> ('b, 'd, 'h, 'v) state" where
  "loadDirContents e dirPath st =
     (let st1 = st\<lparr>currentPath := dirPath\<rparr>;
          contents = (case getDirContent e dirPath of
                        None \<Rightarrow> \<lparr>files = [], dirs = []\<rparr>
                      | Some c \<Rightarrow> c);
          contents' = contents\<lparr>files := filter (\<lambda>file. endsWith file ''.dat64'') (files contents)\<rparr>
      in st1\<lparr>dirContents := \<lparr>files = files contents', dirs = dirs contents'\<rparr>\<rparr>)"

definition goUp ::
  "('b, 'd, 'c, 's, 'h, 'v) env \<Rightarrow> ('b, 'd, 'h, 'v) state \<Rightarrow> ('b, 'd, 'h, 'v) state" where
  "goUp e st =
     (if currentPath st \<noteq> [] then
        (let parts = split_str CHR ''/'' (currentPath st);
             parts' = butlast parts
         in loadDirContents e (join_str ''/'' parts') st)
      else st)"

text \<open>
  The reactive statement of lines 36 to 39: the files shown are those of \<open>dirContents\<close>
  that contain the search term; \<open>file.includes(searchTerm)\<close> is the test for a
  contiguous substring, and an empty search term is falsy.
\<close>

definition includes_str :: "string \<Rightarrow> string \<Rightarrow> bool" where
  "includes_str s sub = sublist sub s"

definition filteredFiles :: "('b, 'd, 'h, 'v) state \<Rightarrow> string list" where
  "filteredFiles st =
     filter (\<lambda>file. if searchTerm st = [] then True else includes_str file (searchTerm st))
       (files (dirContents st))"

subsection \<open>The schema name\<close>

text \<open>Line 78: \<open>filePath.replace('data/', '').replace('.dat64', '')\<close>.\<close>

definition schemaName :: "string \<Rightarrow> string" where
  "schemaName filePath = replace_str (replace_str filePath ''data/'' '''') ''.dat64'' ''''"

text \<open>
  The name as the specification words it: the directory prefix stripped from the front
  of the path and the file extension stripped from its end.
\<close>

definition strip_prefix :: "string \<Rightarrow> string \<Rightarrow> string" where
  "strip_prefix pre s = (if prefix pre s then drop (length pre) s else s)"

definition strip_suffix :: "string \<Rightarrow> string \<Rightarrow> string" where
  "strip_suffix suf s = (if suffix suf s then take (length s - length suf) s else s)"

definition spec_schemaName :: "string \<Rightarrow> string" where
  "spec_schemaName filePath = strip_suffix ''.dat64'' (strip_prefix ''data/'' filePath)"

subsection \<open>Placeholder names\<close>

text \<open>The test \<open>header.name ? ... : ...\<close>: null and the empty string are falsy.\<close>

definition truthy :: "string option \<Rightarrow> bool" where
  "truthy n = (case n of None \<Rightarrow> False | Some s \<Rightarrow> s \<noteq> [])"

text \<open>
  Lines 95 to 98: \<open>headersResult.headers.map((header, index) => ({...header, name:
  header.name ? header.name : `Unnamed ${index}`}))\<close>. The index is the position of the
  header in the whole array.
\<close>

definition assignNames :: "'h header list \<Rightarrow> 'h header list" where
  "assignNames hs =
     map (\<lambda>(index, header).
            header\<lparr>name := (if truthy (name header) then name header
                            else Some (''Unnamed '' @ string_of_nat index))\<rparr>)
         (enumerate 0 hs)"

subsection \<open>Rows\<close>

text \<open>\<open>columns[index][i]\<close>: reading an array out of range gives \<open>undefined\<close>.\<close>

definition cell_at :: "'v cell list \<Rightarrow> nat \<Rightarrow> 'v cell" where
  "cell_at column i = (if i < length column then column ! i else Undefined)"

text \<open>
  \<open>row[key] = value\<close>, on the own properties of the row and its prototype. The
  property is created or overwritten, with one exception. When the row has no own
  property \<open>__proto__\<close> and its prototype is not null, an assignment to the key
  \<open>__proto__\<close> finds the accessor of \<open>Object.prototype\<close> along the prototype chain and
  calls its setter, which creates no property: it makes null or an object the new
  prototype of the row and ignores every other value. Once the prototype is null the
  accessor is out of reach, and an assignment to \<open>__proto__\<close> creates the property.
\<close>

definition set_prop ::
  "'v row \<times> 'v prototype \<Rightarrow> string \<Rightarrow> 'v cell \<Rightarrow> 'v row \<times> 'v prototype" where
  "set_prop obj key v =
     (if key = ''__proto__'' \<and> fst obj ''__proto__'' = None \<and> snd obj \<noteq> Null_prototype then
        (fst obj,
         (case v of
            Null \<Rightarrow> Null_prototype
          | Obj ob \<Rightarrow> Cell_prototype ob
          | _ \<Rightarrow> snd obj))
      else ((fst obj)(key \<mapsto> v), snd obj))"

text \<open>
  The inner loop of \<open>extractRows\<close> (lines 127 to 132) for row \<open>i\<close>, over the headers
  paired with their columns.
\<close>

fun build_row ::
  "('h header \<times> 'v cell list) list \<Rightarrow> nat \<Rightarrow> 'v row \<times> 'v prototype \<Rightarrow> 'v row \<times> 'v prototype" where
  "build_row [] i row = row"
| "build_row ((header, column) # hcs) i row =
     build_row hcs i
       (if truthy (name header) then set_prop row (the (name header)) (cell_at column i)
        else row)"

text \<open>
  \<open>Promise.all\<close> over the calls of \<open>readColumn\<close>: the columns in the order of the
  headers, or the failure of the first call that fails.
\<close>

fun promise_all :: "(exn + 'a) list \<Rightarrow> exn + 'a list" where
  "promise_all [] = Inr []"
| "promise_all (Inl x # ps) = Inl x"
| "promise_all (Inr v # ps) =
     (case promise_all ps of Inl x \<Rightarrow> Inl x | Inr vs \<Rightarrow> Inr (v # vs))"

text \<open>
  \<open>extractRows\<close> (lines 118 to 138). Every row starts as \<open>{}\<close>, with no property and
  the prototype \<open>Object.prototype\<close>, and is kept by its own properties. Reading
  \<open>datFile.rowCount\<close> of null throws a TypeError.
\<close>

definition extractRows ::
  "('b, 'd, 'c, 's, 'h, 'v) env \<Rightarrow> 'd option \<Rightarrow> 'h header list \<Rightarrow> exn + 'v row list" where
  "extractRows e dat hs =
     (case promise_all (map (\<lambda>header. readColumn e header dat) hs) of
        Inl x \<Rightarrow> Inl x
      | Inr columns \<Rightarrow>
          (case dat of
             None \<Rightarrow> Inl (Exn ''TypeError'')
           | Some d \<Rightarrow>
               Inr (map (\<lambda>i. fst (build_row (zip hs columns) i (Map.empty, Object_prototype)))
                      [0..<rowCount e d])))"

subsection \<open>Loading a file, one await at a time\<close>

text \<open>
  \<open>loadFileContent\<close> is an async function: it runs from one \<open>await\<close> to the next
  without interruption and is suspended at each \<open>await\<close>, where other calls may run.
  A suspended call is the \<open>await\<close> it stands at together with its local variables and
  the arguments of the call it awaits; the component's variables are shared by all calls
  and are read from the state when the call goes on. (Loading a module with \<open>import\<close>
  is taken to succeed.)
\<close>

datatype outcome = Resolved | Rejected exn

datatype ('d, 'c, 'h, 'v) task =
    Await_index_loadFileContent string
  | Await_import_dat string string
  | Await_import_interface string string
  | Await_import_headers string string
  | Await_analyzeDatFile string 'd
  | Await_findByName string 'c
  | Await_import_readColumn "'d option" "'h header list"
  | Await_columns "'d option" "'h header list"
  | Await_extractRows "exn + 'v row list"
  | Settled outcome

text \<open>Lines 74 and 75, up to the first \<open>await\<close>.\<close>

definition call_loadFileContent ::
  "string \<Rightarrow> ('b, 'd, 'h, 'v) state \<Rightarrow> ('d, 'c, 'h, 'v) task \<times> ('b, 'd, 'h, 'v) state" where
  "call_loadFileContent filePath st = (Await_index_loadFileContent filePath, st\<lparr>loading := True\<rparr>)"

text \<open>
  A suspended call goes on to its next \<open>await\<close> or to its end. The strings carried
  are \<open>filePath\<close> and \<open>schemaName\<close>. The last three awaits are those of \<open>extractRows\<close>
  (lines 120 and 121) and of its caller (line 105).
\<close>

fun resume ::
  "('b, 'd, 'c, 's, 'h, 'v) env \<Rightarrow> ('d, 'c, 'h, 'v) task \<Rightarrow> ('b, 'd, 'h, 'v) state
     \<Rightarrow> ('d, 'c, 'h, 'v) task \<times> ('b, 'd, 'h, 'v) state" where
  "resume e (Await_index_loadFileContent filePath) st =
     (case index_loadFileContent e filePath of
        Inl x \<Rightarrow> (Settled (Rejected x), st)
      | Inr bytes \<Rightarrow> (Await_import_dat filePath (schemaName filePath), st\<lparr>fileContent := Some bytes\<rparr>))"
| "resume e (Await_import_dat filePath sn) st = (Await_import_interface filePath sn, st)"
| "resume e (Await_import_interface filePath sn) st = (Await_import_headers filePath sn, st)"
| "resume e (Await_import_headers filePath sn) st =
     (case readDatFile e filePath (fileContent st) of
        Inl x \<Rightarrow> (Settled (Rejected x), st)
      | Inr d \<Rightarrow> (Await_analyzeDatFile sn d, st\<lparr>datFile := Some d\<rparr>))"
| "resume e (Await_analyzeDatFile sn d) st =
     (case analyzeDatFile e d of
        Inl x \<Rightarrow> (Settled (Rejected x), st)
      | Inr columnStats \<Rightarrow> (Await_findByName sn columnStats, st))"
| "resume e (Await_findByName sn columnStats) st =
     (case findByName e sn of
        Inl x \<Rightarrow> (Settled (Rejected x), st)
      | Inr serializedHeaders \<Rightarrow>
          (case fromSerializedHeaders e serializedHeaders columnStats (datFile st) of
             Inl x \<Rightarrow> (Settled (Rejected x), st)
           | Inr None \<Rightarrow>
               (Settled Resolved,
                st\<lparr>warnings := warnings st @ [''Invalid headers for file: '' @ sn]\<rparr>)
           | Inr (Some hs) \<Rightarrow>
               (let st1 = st\<lparr>headers := assignNames hs\<rparr>
                in (Await_import_readColumn (datFile st1) (headers st1), st1))))"
| "resume e (Await_import_readColumn dat hs) st = (Await_columns dat hs, st)"
| "resume e (Await_columns dat hs) st = (Await_extractRows (extractRows e dat hs), st)"
| "resume e (Await_extractRows r) st =
     (case r of
        Inl x \<Rightarrow> (Settled (Rejected x), st)
      | Inr rs \<Rightarrow> (Settled Resolved, st\<lparr>rows := rs, loading := False\<rparr>))"
| "resume e (Settled out) st = (Settled out, st)"

text \<open>
  One call of \<open>loadFileContent\<close> with no other call in between: the call and its nine
  awaits, one after the other. The result is the task at its end and the state.
\<close>

definition loadFileContent ::
  "('b, 'd, 'c, 's, 'h, 'v) env \<Rightarrow> string \<Rightarrow> ('b, 'd, 'h, 'v) state
     \<Rightarrow> ('d, 'c, 'h, 'v) task \<times> ('b, 'd, 'h, 'v) state" where
  "loadFileContent e filePath st =
     ((\<lambda>(t, s). resume e t s) ^^ 9) (call_loadFileContent filePath st)"

text \<open>
  What the template shows (lines 225 to 284): the table of \<open>rows\<close> and \<open>headers\<close>
  unless \<open>loading\<close> is set, the loading image otherwise.
\<close>

datatype ('h, 'v) view = DataTable "'v row list" "'h header list" | Loading_image

definition rendered :: "('b, 'd, 'h, 'v) state \<Rightarrow> ('h, 'v) view" where
  "rendered st = (if \<not> loading st then DataTable (rows st) (headers st) else Loading_image)"

subsection \<open>Overlapping calls\<close>

text \<open>
  Clicking a file calls \<open>loadFileContent\<close> whatever calls are suspended; nothing in
  the component orders the suspended calls, so any of them may be the next to go on.
  A run is a list of events applied to the state and the list of calls made so far.
\<close>

datatype event = Click string | Resume nat

record ('b, 'd, 'c, 'h, 'v) system =
  component :: "('b, 'd, 'h, 'v) state"
  calls :: "('d, 'c, 'h, 'v) task list"

fun fire ::
  "('b, 'd, 'c, 's, 'h, 'v) env \<Rightarrow> event \<Rightarrow> ('b, 'd, 'c, 'h, 'v) system
     \<Rightarrow> ('b, 'd, 'c, 'h, 'v) system" where
  "fire e (Click filePath) sy =
     (case call_loadFileContent filePath (component sy) of
        (t, st) \<Rightarrow> \<lparr>component = st, calls = calls sy @ [t]\<rparr>)"
| "fire e (Resume k) sy =
     (if k < length (calls sy) then
        (case resume e (calls sy ! k) (component sy) of
           (t, st) \<Rightarrow> \<lparr>component = st, calls = (calls sy)[k := t]\<rparr>)
      else sy)"

definition run ::
  "('b, 'd, 'c, 's, 'h, 'v) env \<Rightarrow> event list \<Rightarrow> ('b, 'd, 'c, 'h, 'v) system
     \<Rightarrow> ('b, 'd, 'c, 'h, 'v) system" where
  "run e evs sy = fold (fire e) evs sy"

subsection \<open>Notions used in the statements\<close>

text \<open>The key that a header with a name writes; the empty string for null.\<close>

definition key_of :: "'h header \<Rightarrow> string" where
  "key_of h = (case name h of None \<Rightarrow> [] | Some n \<Rightarrow> n)"

text \<open>The column of a header; no cell when the column cannot be read.\<close>

definition column_of ::
  "('b, 'd, 'c, 's, 'h, 'v) env \<Rightarrow> 'd option \<Rightarrow> 'h header \<Rightarrow> 'v cell list" where
  "column_of e dat h = (case readColumn e h dat of Inl x \<Rightarrow> [] | Inr col \<Rightarrow> col)"

text \<open>The cells of row \<open>i\<close> under the headers named \<open>n\<close>, in the order of the headers.\<close>

definition cells_named ::
  "('b, 'd, 'c, 's, 'h, 'v) env \<Rightarrow> 'd option \<Rightarrow> 'h header list \<Rightarrow> string \<Rightarrow> nat \<Rightarrow> 'v cell list" where
  "cells_named e dat hs n i =
     map (\<lambda>h. cell_at (column_of e dat h) i) (filter (\<lambda>h. name h = Some n) hs)"

text \<open>A list of cells in which a null cell is followed by at least one more cell.\<close>

fun null_then_more :: "'v cell list \<Rightarrow> bool" where
  "null_then_more [] = False"
| "null_then_more (v # vs) = (if v = Null then vs \<noteq> [] else null_then_more vs)"

text \<open>
  The assignments of the inner loop for row \<open>i\<close>, as keys and cells in the order of the
  headers, and their effect on a row and its prototype.
\<close>

definition named_cells ::
  "('h header \<Rightarrow> 'v cell list) \<Rightarrow> 'h header list \<Rightarrow> nat \<Rightarrow> (string \<times> 'v cell) list" where
  "named_cells g hs i = map (\<lambda>h. (key_of h, cell_at (g h) i)) (filter (\<lambda>h. truthy (name h)) hs)"

fun assigns ::
  "(string \<times> 'v cell) list \<Rightarrow> 'v row \<times> 'v prototype \<Rightarrow> 'v row \<times> 'v prototype" where
  "assigns [] obj = obj"
| "assigns ((k, v) # kvs) obj = assigns kvs (set_prop obj k v)"

text \<open>
  The row that the inner loop builds, read off the headers: the entry of a name holds
  the last cell under that name; the name \<open>__proto__\<close> has an entry only when a null
  cell under it is followed by another cell under it.
\<close>

definition row_of ::
  "('b, 'd, 'c, 's, 'h, 'v) env \<Rightarrow> 'd option \<Rightarrow> 'h header list \<Rightarrow> nat \<Rightarrow> 'v row" where
  "row_of e dat hs i =
     (\<lambda>n. if n = [] \<or> cells_named e dat hs n i = []
              \<or> (n = ''__proto__'' \<and> \<not> null_then_more (cells_named e dat hs n i))
           then None
           else Some (last (cells_named e dat hs n i)))"

text \<open>The initial values of the component's variables (lines 13 to 21).\<close>

definition init_state :: "('b, 'd, 'h, 'v) state" where
  "init_state =
     \<lparr>dirContents = \<lparr>files = [], dirs = []\<rparr>, fileContent = None, headers = [],
      currentPath = [], datFile = None, rows = [], searchTerm = [], loading = False,
      warnings = []\<rparr>"

subsection \<open>An example environment\<close>

text \<open>
  Tables of rows of eight bytes with 32-bit little-endian integers, of which
  \<open>0xFEFEFEFE\<close> stands for null; a header's \<open>rest\<close> is its offset, and a schema is
  accepted when every header ends within the eight bytes.
\<close>

definition read_int32 :: "nat list \<Rightarrow> nat \<Rightarrow> nat" where
  "read_int32 r off =
     r ! off + 256 * r ! (off + 1) + 65536 * r ! (off + 2) + 16777216 * r ! (off + 3)"

definition hdr :: "string option \<Rightarrow> nat \<Rightarrow> nat header" where
  "hdr n off = \<lparr>name = n, rest = off\<rparr>"

definition demo_table :: "nat list list" where
  "demo_table = [[1, 0, 0, 0, 10, 0, 0, 0], [2, 0, 0, 0, 20, 0, 0, 0], [3, 0, 0, 0, 30, 0, 0, 0]]"

definition null_table :: "nat list list" where
  "null_table = [[254, 254, 254, 254, 5, 0, 0, 0], [6, 0, 0, 0, 254, 254, 254, 254]]"

definition demo_env :: "(nat list list, nat list list, unit, nat header list, nat, nat) env" where
  "demo_env =
     \<lparr>getDirContent = (\<lambda>p.
          if p = ''data'' then
            Some \<lparr>files = [''data/ab.dat64'', ''data/ab.dat'', ''data/cd.dat64''],
                  dirs = [''data/french'']\<rparr>
          else None),
      index_loadFileContent = (\<lambda>p.
          if p = ''data/cd.dat64'' then Inr [[7, 0, 0, 0, 70, 0, 0, 0]]
          else if p = ''data/proto.dat64'' then Inr null_table
          else Inr demo_table),
      readDatFile = (\<lambda>p b. case b of None \<Rightarrow> Inl (Exn ''no content'') | Some t \<Rightarrow> Inr t),
      rowCount = length,
      analyzeDatFile = (\<lambda>d. Inr ()),
      findByName = (\<lambda>n.
          if n = ''ab'' then Inr [hdr (Some ''A'') 0, hdr (Some ''B'') 4]
          else if n = ''cd'' then Inr [hdr (Some ''C'') 0, hdr (Some ''D'') 4]
          else if n = ''dup'' then Inr [hdr (Some ''A'') 0, hdr (Some ''A'') 4]
          else if n = ''anon'' then Inr [hdr (Some ''Unnamed 1'') 0, hdr None 4]
          else if n = ''bad'' then Inr [hdr (Some ''A'') 0, hdr (Some ''B'') 8]
          else if n = ''proto'' then Inr [hdr (Some ''__proto__'') 0, hdr (Some ''__proto__'') 4]
          else Inl (Exn ''no schema'')),
      fromSerializedHeaders = (\<lambda>sh c d.
          if list_all (\<lambda>h. rest h + 4 \<le> 8) sh then Inr (Some sh) else Inr None),
      readColumn = (\<lambda>h d.
          case d of
            None \<Rightarrow> Inl (Exn ''no file'')
          | Some t \<Rightarrow>
              Inr (map (\<lambda>r. if read_int32 r (rest h) = 4278124286 then Null
                             else Val (read_int32 r (rest h))) t))\<rparr>"

section \<open>Lemmas\<close>

subsection \<open>Strings\<close>

lemma split_str_no_sep: "sep \<notin> set s \<Longrightarrow> split_str sep s = [s]"
  by (induction s) auto

lemma replace_str_suffix_only:
  "CHR ''.'' \<notin> set n \<Longrightarrow> replace_str (n @ ''.dat64'') ''.dat64'' [] = n"
  by (induction n) (auto simp: prefix_Cons)

text \<open>
  For a file of the directory \<open>data\<close> whose name has no dot, the name computed is the
  one the specification words.
\<close>

lemma schemaName_plain:
  "CHR ''.'' \<notin> set n \<Longrightarrow>
     schemaName (''data/'' @ n @ ''.dat64'') = n \<and> spec_schemaName (''data/'' @ n @ ''.dat64'') = n"
  by (simp add: schemaName_def replace_str_suffix_only spec_schemaName_def strip_prefix_def
        strip_suffix_def suffix_def)

lemma loadDirContents_currentPath: "currentPath (loadDirContents e p st) = p"
  by (simp add: loadDirContents_def Let_def)

subsection \<open>Placeholder names\<close>

lemma assignNames_length [simp]: "length (assignNames hs) = length hs"
  by (simp add: assignNames_def)

lemma assignNames_nth:
  "i < length hs \<Longrightarrow>
     assignNames hs ! i =
       (hs ! i)\<lparr>name := (if truthy (name (hs ! i)) then name (hs ! i)
                          else Some (''Unnamed '' @ string_of_nat i))\<rparr>"
  by (simp add: assignNames_def nth_enumerate_eq)

lemma truthy_assignNames: "h \<in> set (assignNames hs) \<Longrightarrow> truthy (name h)"
  by (auto simp: in_set_conv_nth assignNames_nth truthy_def)

lemma assignNames_truthy_id: "\<forall>h \<in> set hs. truthy (name h) \<Longrightarrow> assignNames hs = hs"
  by (rule nth_equalityI) (simp_all add: assignNames_nth)

lemma assignNames_idem: "assignNames (assignNames hs) = assignNames hs"
  by (rule assignNames_truthy_id) (simp add: truthy_assignNames)

lemma truthy_key_of: "truthy (name h) \<Longrightarrow> name h = Some (key_of h) \<and> key_of h \<noteq> []"
  by (auto simp: truthy_def key_of_def split: option.splits)

subsection \<open>Rows read off the headers\<close>

lemma promise_all_Inr:
  "promise_all (map f xs) = Inr cs \<Longrightarrow>
     cs = map (\<lambda>x. case f x of Inl e \<Rightarrow> [] | Inr c \<Rightarrow> c) xs \<and> (\<forall>x \<in> set xs. \<not> isl (f x))"
proof (induction xs arbitrary: cs)
  case Nil
  then show ?case by simp
next
  case (Cons a xs)
  then show ?case by (cases "f a") (auto split: sum.splits)
qed

lemma promise_all_ok:
  "\<forall>x \<in> set xs. \<not> isl (f x) \<Longrightarrow>
     promise_all (map f xs) = Inr (map (\<lambda>x. case f x of Inl e \<Rightarrow> [] | Inr c \<Rightarrow> c) xs)"
proof (induction xs)
  case Nil
  then show ?case by simp
next
  case (Cons a xs)
  then show ?case by (cases "f a") auto
qed

lemma build_row_assigns:
  "build_row (zip hs (map g hs)) i obj = assigns (named_cells g hs i) obj"
proof (induction hs arbitrary: obj)
  case Nil
  then show ?case by (simp add: named_cells_def)
next
  case (Cons h hs)
  show ?case
    using truthy_key_of [of h] Cons.IH
    by (auto simp: named_cells_def)
qed

lemma map_of_rev_last:
  "map_of (rev kvs) k =
     (if filter (\<lambda>kv. fst kv = k) kvs = [] then None
      else Some (last (map snd (filter (\<lambda>kv. fst kv = k) kvs))))"
  by (induction kvs) (auto simp: map_add_def split: option.splits)

lemma assigns_other:
  "k \<noteq> ''__proto__'' \<Longrightarrow> fst (assigns kvs obj) k = (fst obj ++ map_of (rev kvs)) k"
proof (induction kvs arbitrary: obj)
  case Nil
  then show ?case by simp
next
  case (Cons kv kvs)
  obtain k' v where kv: "kv = (k', v)" by (cases kv)
  show ?case
    using Cons.prems
    by (auto simp: kv Cons.IH set_prop_def map_add_def split: option.splits)
qed

lemma assigns_null_prototype:
  "snd obj = Null_prototype \<Longrightarrow>
     assigns kvs obj = (fst obj ++ map_of (rev kvs), Null_prototype)"
proof (induction kvs arbitrary: obj)
  case Nil
  then show ?case by (cases obj) simp
next
  case (Cons kv kvs)
  obtain k v where kv: "kv = (k, v)" by (cases kv)
  show ?case
    using Cons.prems
    by (auto simp: kv Cons.IH set_prop_def map_add_def fun_eq_iff split: option.splits)
qed

lemma assigns_proto:
  "fst obj ''__proto__'' = None \<Longrightarrow> snd obj \<noteq> Null_prototype \<Longrightarrow>
     fst (assigns kvs obj) ''__proto__'' =
       (if null_then_more (map snd (filter (\<lambda>kv. fst kv = ''__proto__'') kvs))
        then Some (last (map snd (filter (\<lambda>kv. fst kv = ''__proto__'') kvs)))
        else None)"
proof (induction kvs arbitrary: obj)
  case Nil
  then show ?case by simp
next
  case (Cons kv kvs)
  obtain k v where kv: "kv = (k, v)" by (cases kv)
  show ?case
  proof (cases "k = ''__proto__''")
    case False
    then have "fst (set_prop obj k v) ''__proto__'' = None"
      and "snd (set_prop obj k v) \<noteq> Null_prototype"
      using Cons.prems by (simp_all add: set_prop_def)
    from Cons.IH [OF this] False show ?thesis
      by (simp add: kv)
  next
    case True
    show ?thesis
    proof (cases "v = Null")
      case True
      with \<open>k = ''__proto__''\<close> Cons.prems
      have "set_prop obj k v = (fst obj, Null_prototype)"
        by (simp add: set_prop_def)
      then show ?thesis
        using Cons.prems(1) \<open>k = ''__proto__''\<close> True
        by (simp add: kv assigns_null_prototype map_add_def map_of_rev_last filter_empty_conv
              split: option.splits)
    next
      case False
      with \<open>k = ''__proto__''\<close> Cons.prems
      have "fst (set_prop obj k v) ''__proto__'' = None"
        and "snd (set_prop obj k v) \<noteq> Null_prototype"
        by (auto simp: set_prop_def split: cell.splits)
      from Cons.IH [OF this] False \<open>k = ''__proto__''\<close> show ?thesis
        by (auto simp: kv)
    qed
  qed
qed

lemma named_cells_filter:
  "n \<noteq> [] \<Longrightarrow>
     map snd (filter (\<lambda>kv. fst kv = n) (named_cells (column_of e dat) hs i)) =
       cells_named e dat hs n i"
proof (induction hs)
  case Nil
  then show ?case by (simp add: named_cells_def cells_named_def)
next
  case (Cons h hs)
  then show ?case
    using truthy_key_of [of h]
    by (auto simp: named_cells_def cells_named_def truthy_def)
qed

lemma named_cells_no_empty_key:
  "filter (\<lambda>kv. fst kv = []) (named_cells g hs i) = []"
  using truthy_key_of by (auto simp: named_cells_def filter_empty_conv)

lemma fresh_row:
  "fst (assigns (named_cells (column_of e dat) hs i) (Map.empty, Object_prototype)) = row_of e dat hs i"
proof
  fix n
  let ?kvs = "named_cells (column_of e dat) hs i"
  show "fst (assigns ?kvs (Map.empty, Object_prototype)) n = row_of e dat hs i n"
  proof (cases "n = ''__proto__''")
    case True
    then show ?thesis
      using assigns_proto [of "(Map.empty, Object_prototype)" ?kvs]
        named_cells_filter [of n e dat hs i]
      by (auto simp: row_of_def)
  next
    case False
    show ?thesis
    proof (cases "n = []")
      case True
      then show ?thesis
        using False by (simp add: assigns_other map_of_rev_last named_cells_no_empty_key row_of_def)
    next
      case False
      with \<open>n \<noteq> ''__proto__''\<close> named_cells_filter [of n e dat hs i, symmetric] show ?thesis
        by (simp add: assigns_other map_of_rev_last row_of_def)
    qed
  qed
qed

lemma extractRows_Inr:
  assumes "extractRows e dat hs = Inr rs"
  shows "\<exists>d. dat = Some d \<and> (\<forall>h \<in> set hs. \<not> isl (readColumn e h dat)) \<and>
           rs = map (row_of e dat hs) [0..<rowCount e d]"
proof -
  from assms obtain cs d where cs: "promise_all (map (\<lambda>h. readColumn e h dat) hs) = Inr cs"
    and d: "dat = Some d"
    and rs: "rs = map (\<lambda>i. fst (build_row (zip hs cs) i (Map.empty, Object_prototype)))
                    [0..<rowCount e d]"
    by (auto simp: extractRows_def split: sum.splits option.splits)
  from promise_all_Inr [OF cs]
  have "cs = map (column_of e dat) hs" and ok: "\<forall>h \<in> set hs. \<not> isl (readColumn e h dat)"
    by (simp_all add: column_of_def)
  with rs d show ?thesis by (simp add: build_row_assigns fresh_row)
qed

lemma extractRows_ok:
  assumes "\<forall>h \<in> set hs. \<not> isl (readColumn e h (Some d))"
  shows "extractRows e (Some d) hs = Inr (map (row_of e (Some d) hs) [0..<rowCount e d])"
proof -
  have "promise_all (map (\<lambda>h. readColumn e h (Some d)) hs) = Inr (map (column_of e (Some d)) hs)"
    using promise_all_ok [of hs "\<lambda>h. readColumn e h (Some d)", OF assms]
    by (simp add: column_of_def)
  then show ?thesis
    by (simp add: extractRows_def build_row_assigns fresh_row)
qed

lemma extractRows_nth:
  assumes "extractRows e dat hs = Inr rs" and "i < length rs"
  shows "rs ! i = row_of e dat hs i"
proof -
  from extractRows_Inr [OF assms(1)] obtain d
    where "rs = map (row_of e dat hs) [0..<rowCount e d]"
    by blast
  with assms(2) show ?thesis by simp
qed

lemma null_then_more_short: "length vs \<le> 1 \<Longrightarrow> \<not> null_then_more vs"
  by (cases vs) (auto split: if_splits)

lemma null_then_more_snoc: "null_then_more (xs @ [c]) \<longleftrightarrow> Null \<in> set xs"
  by (induction xs) auto

lemma filter_at_most_one:
  "distinct (map f xs) \<Longrightarrow> \<forall>x. P x \<longrightarrow> f x = c \<Longrightarrow> length (filter P xs) \<le> 1"
proof (induction xs)
  case Nil
  then show ?case by simp
next
  case (Cons x xs)
  show ?case
  proof (cases "P x")
    case True
    have "filter P xs = []"
    proof (rule ccontr)
      assume "filter P xs \<noteq> []"
      then obtain y where "y \<in> set xs" and "P y"
        by (auto simp: filter_empty_conv)
      with True Cons.prems(2) have "f y = f x" by simp
      with \<open>y \<in> set xs\<close> Cons.prems(1) show False
        by (auto simp: image_iff)
    qed
    with True show ?thesis by simp
  next
    case False
    with Cons show ?thesis by simp
  qed
qed

lemma cells_named_at_most_one:
  assumes "distinct (map key_of hs)"
  shows "length (cells_named e dat hs n i) \<le> 1"
proof -
  have "\<forall>h. name h = Some n \<longrightarrow> key_of h = n"
    by (simp add: key_of_def)
  with assms have "length (filter (\<lambda>h. name h = Some n) hs) \<le> 1"
    by (rule filter_at_most_one)
  then show ?thesis by (simp add: cells_named_def)
qed

lemma name_Some_iff: "n \<noteq> [] \<Longrightarrow> name h = Some n \<longleftrightarrow> truthy (name h) \<and> key_of h = n"
  by (auto simp: truthy_def key_of_def split: option.splits)

lemma cells_named_empty:
  assumes "n \<noteq> []"
  shows "cells_named e dat hs n i = [] \<longleftrightarrow>
           n \<notin> set (map key_of (filter (\<lambda>h. truthy (name h)) hs))"
proof -
  have "cells_named e dat hs n i = [] \<longleftrightarrow> (\<forall>h \<in> set hs. name h \<noteq> Some n)"
    by (simp add: cells_named_def filter_empty_conv)
  also have "\<dots> \<longleftrightarrow> (\<forall>h \<in> set hs. \<not> (truthy (name h) \<and> key_of h = n))"
    by (simp only: name_Some_iff [OF assms])
  also have "\<dots> \<longleftrightarrow> n \<notin> set (map key_of (filter (\<lambda>h. truthy (name h)) hs))"
    by auto
  finally show ?thesis .
qed

lemma dom_row_of:
  "dom (row_of e dat hs i) - {''__proto__''} =
     set (map key_of (filter (\<lambda>h. truthy (name h)) hs)) - {''__proto__''}"
  "''__proto__'' \<in> dom (row_of e dat hs i) \<longleftrightarrow> null_then_more (cells_named e dat hs ''__proto__'' i)"
  "dom (row_of e dat hs i) \<subseteq> set (map key_of (filter (\<lambda>h. truthy (name h)) hs))"
proof -
  have in_dom: "n \<in> dom (row_of e dat hs i) \<longleftrightarrow>
      n \<noteq> [] \<and> cells_named e dat hs n i \<noteq> []
      \<and> (n = ''__proto__'' \<longrightarrow> null_then_more (cells_named e dat hs n i))" for n
    by (auto simp: row_of_def dom_def)
  have keys: "n \<in> set (map key_of (filter (\<lambda>h. truthy (name h)) hs)) \<Longrightarrow> n \<noteq> []" for n
    using truthy_key_of by auto
  have other: "n \<in> dom (row_of e dat hs i) \<longleftrightarrow>
      n \<in> set (map key_of (filter (\<lambda>h. truthy (name h)) hs))" if "n \<noteq> ''__proto__''" for n
  proof (cases "n = []")
    case True
    with keys [of n] in_dom [of n] show ?thesis by blast
  next
    case False
    with that in_dom [of n] cells_named_empty [OF False, of e dat hs i] show ?thesis by blast
  qed
  show "dom (row_of e dat hs i) - {''__proto__''} =
      set (map key_of (filter (\<lambda>h. truthy (name h)) hs)) - {''__proto__''}"
    using other by blast
  show pr: "''__proto__'' \<in> dom (row_of e dat hs i) \<longleftrightarrow>
      null_then_more (cells_named e dat hs ''__proto__'' i)"
    using in_dom [of "''__proto__''"] by auto
  show "dom (row_of e dat hs i) \<subseteq> set (map key_of (filter (\<lambda>h. truthy (name h)) hs))"
  proof
    fix n
    assume n: "n \<in> dom (row_of e dat hs i)"
    show "n \<in> set (map key_of (filter (\<lambda>h. truthy (name h)) hs))"
    proof (cases "n = ''__proto__''")
      case True
      with n in_dom [of n] have "cells_named e dat hs n i \<noteq> []" and "n \<noteq> []"
        by simp_all
      with cells_named_empty [of n e dat hs i] show ?thesis by blast
    next
      case False
      with n other show ?thesis by blast
    qed
  qed
qed

lemma distinct_keys:
  assumes "distinct (map name hs)" and "\<forall>h \<in> set hs. truthy (name h)"
  shows "distinct (map key_of hs)"
proof -
  have eq: "map name hs = map Some (map key_of hs)"
    using assms(2) truthy_key_of by (auto simp: comp_def)
  from assms(1) have "distinct (map Some (map key_of hs))"
    unfolding eq .
  then show ?thesis
    unfolding distinct_map [of Some] by (rule conjunct1)
qed

lemma mset_eq_short: "mset xs = mset ys \<Longrightarrow> length xs \<le> 1 \<Longrightarrow> xs = ys"
proof -
  assume m: "mset xs = mset ys" and l: "length xs \<le> 1"
  from m have "size (mset ys) = size (mset xs)"
    by simp
  then have "length ys = length xs"
    by simp
  with l m show ?thesis
    by (cases xs; cases ys) auto
qed

lemma row_of_perm:
  assumes "mset hs' = mset hs" and "distinct (map name hs)"
  shows "row_of e dat hs' i = row_of e dat hs i"
proof -
  have "cells_named e dat hs' n i = cells_named e dat hs n i" for n
  proof -
    have "mset (filter (\<lambda>h. name h = Some n) hs) = mset (filter (\<lambda>h. name h = Some n) hs')"
      using assms(1) by simp
    moreover have "\<forall>h. name h = Some n \<longrightarrow> name h = Some n"
      by simp
    with assms(2) have "length (filter (\<lambda>h. name h = Some n) hs) \<le> 1"
      by (rule filter_at_most_one)
    ultimately have "filter (\<lambda>h. name h = Some n) hs = filter (\<lambda>h. name h = Some n) hs'"
      by (rule mset_eq_short)
    then show ?thesis by (simp add: cells_named_def)
  qed
  then show ?thesis by (simp add: row_of_def cong: if_cong)
qed

subsection \<open>Counting the entries of a row\<close>

lemma card_dom_row_of:
  assumes "\<forall>h \<in> set hs. truthy (name h)"
  shows "card (dom (row_of e dat hs i)) = length hs \<longleftrightarrow>
           distinct (map key_of hs) \<and> ''__proto__'' \<notin> set (map key_of hs)"
proof -
  let ?D = "dom (row_of e dat hs i)" and ?K = "map key_of hs"
  have f: "filter (\<lambda>h. truthy (name h)) hs = hs"
    using assms by simp
  have sub: "?D \<subseteq> set ?K"
    and rest: "?D - {''__proto__''} = set ?K - {''__proto__''}"
    and pr: "''__proto__'' \<in> ?D \<longleftrightarrow> null_then_more (cells_named e dat hs ''__proto__'' i)"
    using dom_row_of [of e dat hs i] by (simp_all only: f)
  have no: "\<not> null_then_more (cells_named e dat hs ''__proto__'' i)" if "distinct ?K"
    using that by (intro null_then_more_short cells_named_at_most_one) simp
  show ?thesis
  proof
    assume c: "card ?D = length hs"
    have "card ?D \<le> card (set ?K)"
      using sub by (intro card_mono) simp_all
    moreover have "card (set ?K) \<le> length ?K"
      by (rule card_length)
    ultimately have ck: "card (set ?K) = length ?K"
      using c by simp
    then have d: "distinct ?K"
      by (rule card_distinct)
    have "?D = set ?K"
      using sub c ck by (intro card_subset_eq) simp_all
    with pr no [OF d] have "''__proto__'' \<notin> set ?K"
      by blast
    with d show "distinct ?K \<and> ''__proto__'' \<notin> set ?K" ..
  next
    assume a: "distinct ?K \<and> ''__proto__'' \<notin> set ?K"
    with sub rest have "?D = set ?K"
      by blast
    with a show "card ?D = length hs"
      using distinct_card [of ?K] by simp
  qed
qed

subsection \<open>A call that runs without interruption\<close>

text \<open>The nine awaits of a call, taken one after the other from any state.\<close>

lemma resume9:
  "((\<lambda>(t, s). resume e t s) ^^ 9) (Await_index_loadFileContent p, st) =
     (case index_loadFileContent e p of
        Inl x \<Rightarrow> (Settled (Rejected x), st)
      | Inr b \<Rightarrow>
          (case readDatFile e p (Some b) of
             Inl x \<Rightarrow> (Settled (Rejected x), st\<lparr>fileContent := Some b\<rparr>)
           | Inr d \<Rightarrow>
               (case analyzeDatFile e d of
                  Inl x \<Rightarrow> (Settled (Rejected x), st\<lparr>fileContent := Some b, datFile := Some d\<rparr>)
                | Inr c \<Rightarrow>
                    (case findByName e (schemaName p) of
                       Inl x \<Rightarrow> (Settled (Rejected x), st\<lparr>fileContent := Some b, datFile := Some d\<rparr>)
                     | Inr sh \<Rightarrow>
                         (case fromSerializedHeaders e sh c (Some d) of
                            Inl x \<Rightarrow> (Settled (Rejected x), st\<lparr>fileContent := Some b, datFile := Some d\<rparr>)
                          | Inr None \<Rightarrow>
                              (Settled Resolved,
                               st\<lparr>fileContent := Some b, datFile := Some d,
                                  warnings := warnings st @ [''Invalid headers for file: '' @ schemaName p]\<rparr>)
                          | Inr (Some hs) \<Rightarrow>
                              (case extractRows e (Some d) (assignNames hs) of
                                 Inl x \<Rightarrow> (Settled (Rejected x),
                                    st\<lparr>fileContent := Some b, datFile := Some d, headers := assignNames hs\<rparr>)
                               | Inr rs \<Rightarrow> (Settled Resolved,
                                    st\<lparr>fileContent := Some b, datFile := Some d,
                                       headers := assignNames hs, rows := rs, loading := False\<rparr>)))))))"
  by (simp add: eval_nat_numeral split: sum.splits option.splits)

lemma loadFileContent_resume9:
  "loadFileContent e p st =
     ((\<lambda>(t, s). resume e t s) ^^ 9) (Await_index_loadFileContent p, st\<lparr>loading := True\<rparr>)"
  by (simp only: loadFileContent_def call_loadFileContent_def)

lemmas loadFileContent_unfold = loadFileContent_resume9 [unfolded resume9]

lemma load_decoded:
  assumes "index_loadFileContent e p = Inr b"
    and "readDatFile e p (Some b) = Inr d"
    and "analyzeDatFile e d = Inr c"
    and "findByName e (schemaName p) = Inr sh"
    and "fromSerializedHeaders e sh c (Some d) = Inr (Some hs)"
    and "extractRows e (Some d) (assignNames hs) = Inr rs"
  shows "((\<lambda>(t, s). resume e t s) ^^ 9) (Await_index_loadFileContent p, st) =
           (Settled Resolved,
            st\<lparr>fileContent := Some b, datFile := Some d, headers := assignNames hs,
               rows := rs, loading := False\<rparr>)"
  by (simp add: resume9 assms)

lemma load_mismatch:
  assumes "index_loadFileContent e p = Inr b"
    and "readDatFile e p (Some b) = Inr d"
    and "analyzeDatFile e d = Inr c"
    and "findByName e (schemaName p) = Inr sh"
    and "fromSerializedHeaders e sh c (Some d) = Inr None"
  shows "((\<lambda>(t, s). resume e t s) ^^ 9) (Await_index_loadFileContent p, st) =
           (Settled Resolved,
            st\<lparr>fileContent := Some b, datFile := Some d,
               warnings := warnings st @ [''Invalid headers for file: '' @ schemaName p]\<rparr>)"
  by (simp add: resume9 assms)

subsection \<open>Runs of overlapping calls\<close>

lemma run_append: "run e (xs @ ys) sy = run e ys (run e xs sy)"
  by (simp add: run_def)

lemma run_Cons: "run e (ev # evs) sy = run e evs (fire e ev sy)"
  by (simp add: run_def)

lemma fire_keeps:
  assumes "k < length (calls sy)" and "ev \<noteq> Resume k"
  shows "k < length (calls (fire e ev sy)) \<and> calls (fire e ev sy) ! k = calls sy ! k"
proof (cases ev)
  case (Click p)
  then show ?thesis
    using assms(1) by (simp add: call_loadFileContent_def nth_append)
next
  case (Resume j)
  then show ?thesis
    using assms by (auto split: prod.splits)
qed

lemma run_keeps:
  "k < length (calls sy) \<Longrightarrow> Resume k \<notin> set evs \<Longrightarrow>
     k < length (calls (run e evs sy)) \<and> calls (run e evs sy) ! k = calls sy ! k"
proof (induction evs arbitrary: sy)
  case Nil
  then show ?case by (simp add: run_def)
next
  case (Cons ev evs)
  from Cons.prems have "ev \<noteq> Resume k" and rest: "Resume k \<notin> set evs"
    by auto
  from fire_keeps [OF Cons.prems(1) this(1), of e]
  have 1: "k < length (calls (fire e ev sy))" and 2: "calls (fire e ev sy) ! k = calls sy ! k"
    by simp_all
  from Cons.IH [OF 1 rest] 2 show ?case
    by (simp add: run_Cons)
qed

lemma run_resumes:
  "k < length (calls sy) \<Longrightarrow>
     run e (replicate n (Resume k)) sy =
       \<lparr>component = snd (((\<lambda>(t, s). resume e t s) ^^ n) (calls sy ! k, component sy)),
        calls = (calls sy)[k := fst (((\<lambda>(t, s). resume e t s) ^^ n) (calls sy ! k, component sy))]\<rparr>"
proof (induction n arbitrary: sy)
  case 0
  then show ?case by (simp add: run_def)
next
  case (Suc n)
  obtain t st where r: "resume e (calls sy ! k) (component sy) = (t, st)"
    by (cases "resume e (calls sy ! k) (component sy)")
  let ?sy = "\<lparr>component = st, calls = (calls sy)[k := t]\<rparr>"
  have f: "fire e (Resume k) sy = ?sy"
    using Suc.prems r by simp
  have k: "k < length (calls ?sy)"
    using Suc.prems by simp
  show ?case
    using Suc.prems
    by (simp add: run_Cons f Suc.IH [OF k] funpow_swap1 r)
qed

lemma loadFileContent_settles: "\<exists>out. fst (loadFileContent e p st) = Settled out"
  by (simp add: loadFileContent_unfold split: sum.splits option.splits)

subsection \<open>The example environment\<close>

text \<open>The equations that evaluate the definitions in the example environment.\<close>

lemmas demo_simps = demo_env_def demo_table_def hdr_def read_int32_def init_state_def
  schemaName_def assignNames_def truthy_def extractRows_def cell_at_def set_prop_def
  string_of_nat.simps digit_char_def enumerate_eq_zip key_of_def

lemma demo_ab:
  "index_loadFileContent demo_env ''data/ab.dat64'' = Inr demo_table"
  "readDatFile demo_env ''data/ab.dat64'' (Some demo_table) = Inr demo_table"
  "analyzeDatFile demo_env demo_table = Inr ()"
  "findByName demo_env (schemaName ''data/ab.dat64'') = Inr [hdr (Some ''A'') 0, hdr (Some ''B'') 4]"
  "fromSerializedHeaders demo_env [hdr (Some ''A'') 0, hdr (Some ''B'') 4] () (Some demo_table) =
     Inr (Some [hdr (Some ''A'') 0, hdr (Some ''B'') 4])"
  "extractRows demo_env (Some demo_table) (assignNames [hdr (Some ''A'') 0, hdr (Some ''B'') 4]) =
     Inr [[''A'' \<mapsto> Val 1, ''B'' \<mapsto> Val 10], [''A'' \<mapsto> Val 2, ''B'' \<mapsto> Val 20],
          [''A'' \<mapsto> Val 3, ''B'' \<mapsto> Val 30]]"
  by (simp_all add: demo_simps)

section \<open>The claims\<close>

text \<open>
  C1 (as amended). When the file loads, the dat file parses and is analysed, the schema
  is found, the headers are accepted and every column can be read, \<open>loadFileContent\<close>
  resolves with the loading flag cleared, the headers are the accepted ones after
  placeholder naming, and there are exactly \<open>rowCount\<close> rows. In every row each header
  name other than \<open>__proto__\<close> has one entry, whatever the number of headers with that
  name; the name \<open>__proto__\<close> has an entry only when a null cell under a header of that
  name is followed by another header of that name. So a row has as many entries as
  there are headers exactly when the names after placeholder naming are pairwise
  distinct and none is \<open>__proto__\<close>.
\<close>

theorem C1_rows_and_entries:
  assumes "index_loadFileContent e p = Inr b"
    and "readDatFile e p (Some b) = Inr d"
    and "analyzeDatFile e d = Inr c"
    and "findByName e (schemaName p) = Inr sh"
    and "fromSerializedHeaders e sh c (Some d) = Inr (Some hs)"
    and "\<forall>h \<in> set (assignNames hs). \<not> isl (readColumn e h (Some d))"
  shows "fst (loadFileContent e p st) = Settled Resolved
       \<and> \<not> loading (snd (loadFileContent e p st))
       \<and> headers (snd (loadFileContent e p st)) = assignNames hs
       \<and> length (rows (snd (loadFileContent e p st))) = rowCount e d
       \<and> (\<forall>i < rowCount e d.
            dom (rows (snd (loadFileContent e p st)) ! i) - {''__proto__''} =
              set (map key_of (assignNames hs)) - {''__proto__''}
          \<and> (''__proto__'' \<in> dom (rows (snd (loadFileContent e p st)) ! i) \<longleftrightarrow>
               null_then_more (cells_named e (Some d) (assignNames hs) ''__proto__'' i))
          \<and> (card (dom (rows (snd (loadFileContent e p st)) ! i)) = length hs \<longleftrightarrow>
               distinct (map key_of (assignNames hs))
             \<and> ''__proto__'' \<notin> set (map key_of (assignNames hs))))"
proof -
  let ?hs = "assignNames hs"
  let ?rs = "map (row_of e (Some d) ?hs) [0..<rowCount e d]"
  have ex: "extractRows e (Some d) ?hs = Inr ?rs"
    using assms(6) by (rule extractRows_ok)
  have run: "loadFileContent e p st =
      (Settled Resolved,
       st\<lparr>loading := True, fileContent := Some b, datFile := Some d,
          headers := ?hs, rows := ?rs, loading := False\<rparr>)"
    unfolding loadFileContent_resume9
    by (rule load_decoded [OF assms(1-5) ex])
  have named: "\<forall>h \<in> set ?hs. truthy (name h)"
    by (simp add: truthy_assignNames)
  then have f: "filter (\<lambda>h. truthy (name h)) ?hs = ?hs"
    by simp
  have doms: "dom (row_of e (Some d) ?hs i) - {''__proto__''} =
      set (map key_of ?hs) - {''__proto__''}" for i
    using dom_row_of(1) [of e "Some d" ?hs i] by (simp only: f)
  have protos: "''__proto__'' \<in> dom (row_of e (Some d) ?hs i) \<longleftrightarrow>
      null_then_more (cells_named e (Some d) ?hs ''__proto__'' i)" for i
    by (rule dom_row_of(2))
  have cards: "card (dom (row_of e (Some d) ?hs i)) = length hs \<longleftrightarrow>
      distinct (map key_of ?hs) \<and> ''__proto__'' \<notin> set (map key_of ?hs)" for i
    using card_dom_row_of [OF named, of e "Some d" i] by simp
  show ?thesis
    using doms protos cards by (simp add: run)
qed

text \<open>
  C1, at the table of three rows with the headers A and B (three rows of two entries),
  and at the table of two rows with two headers named \<open>__proto__\<close>, where the first row
  has a null first cell and so the entry \<open>__proto__\<close>, and the second row has no entry.
\<close>

theorem C1_rows_and_entries_witness:
  "fst (loadFileContent demo_env ''data/ab.dat64'' init_state) = Settled Resolved
   \<and> length (rows (snd (loadFileContent demo_env ''data/ab.dat64'' init_state))) = 3
   \<and> dom (rows (snd (loadFileContent demo_env ''data/ab.dat64'' init_state)) ! 0) - {''__proto__''} =
       {''A'', ''B''}
   \<and> card (dom (rows (snd (loadFileContent demo_env ''data/ab.dat64'' init_state)) ! 0)) = 2
   \<and> ''__proto__'' \<in> dom (rows (snd (loadFileContent demo_env ''data/proto.dat64'' init_state)) ! 0)
   \<and> ''__proto__'' \<notin> dom (rows (snd (loadFileContent demo_env ''data/proto.dat64'' init_state)) ! 1)"
proof -
  let ?hs = "[hdr (Some ''A'') 0, hdr (Some ''B'') 4]"
  let ?ps = "[hdr (Some ''__proto__'') 0, hdr (Some ''__proto__'') 4]"
  have 1: "index_loadFileContent demo_env ''data/ab.dat64'' = Inr demo_table"
    and 2: "readDatFile demo_env ''data/ab.dat64'' (Some demo_table) = Inr demo_table"
    and 3: "analyzeDatFile demo_env demo_table = Inr ()"
    and 4: "findByName demo_env (schemaName ''data/ab.dat64'') = Inr ?hs"
    and 5: "fromSerializedHeaders demo_env ?hs () (Some demo_table) = Inr (Some ?hs)"
    and 6: "\<forall>h \<in> set (assignNames ?hs). \<not> isl (readColumn demo_env h (Some demo_table))"
    by (simp_all add: demo_simps)
  have k: "map key_of (assignNames ?hs) = [''A'', ''B'']" and n: "rowCount demo_env demo_table = 3"
    by (simp_all add: demo_simps)
  have a: "index_loadFileContent demo_env ''data/proto.dat64'' = Inr null_table"
    and b: "readDatFile demo_env ''data/proto.dat64'' (Some null_table) = Inr null_table"
    and c: "analyzeDatFile demo_env null_table = Inr ()"
    and d: "findByName demo_env (schemaName ''data/proto.dat64'') = Inr ?ps"
    and e: "fromSerializedHeaders demo_env ?ps () (Some null_table) = Inr (Some ?ps)"
    and f: "\<forall>h \<in> set (assignNames ?ps). \<not> isl (readColumn demo_env h (Some null_table))"
    by (simp_all add: demo_simps)
  have m: "rowCount demo_env null_table = 2"
    and c0: "cells_named demo_env (Some null_table) (assignNames ?ps) ''__proto__'' 0 = [Null, Val 5]"
    and c1: "cells_named demo_env (Some null_table) (assignNames ?ps) ''__proto__'' (Suc 0) = [Val 6, Null]"
    by (simp_all add: demo_simps null_table_def cells_named_def column_of_def)
  from C1_rows_and_entries [OF 1 2 3 4 5 6, of init_state]
  have ab: "fst (loadFileContent demo_env ''data/ab.dat64'' init_state) = Settled Resolved"
    "length (rows (snd (loadFileContent demo_env ''data/ab.dat64'' init_state))) = 3"
    "dom (rows (snd (loadFileContent demo_env ''data/ab.dat64'' init_state)) ! 0) - {''__proto__''} =
       {''A'', ''B''}"
    "card (dom (rows (snd (loadFileContent demo_env ''data/ab.dat64'' init_state)) ! 0)) = 2"
    by (simp_all add: k n insert_commute)
  from C1_rows_and_entries [OF a b c d e f, of init_state]
  have pr: "''__proto__'' \<in> dom (rows (snd (loadFileContent demo_env ''data/proto.dat64'' init_state)) ! 0)"
    "''__proto__'' \<notin> dom (rows (snd (loadFileContent demo_env ''data/proto.dat64'' init_state)) ! 1)"
    by (simp_all add: m c0 c1)
  from ab pr show ?thesis
    by simp
qed

text \<open>
  C1 as stated fails: with two headers named A, every row has one entry, not two.
\<close>

theorem C1_counterexample:
  "fst (loadFileContent demo_env ''data/dup.dat64'' init_state) = Settled Resolved
   \<and> length (headers (snd (loadFileContent demo_env ''data/dup.dat64'' init_state))) = 2
   \<and> rows (snd (loadFileContent demo_env ''data/dup.dat64'' init_state)) =
       [[''A'' \<mapsto> Val 10], [''A'' \<mapsto> Val 20], [''A'' \<mapsto> Val 30]]
   \<and> card (dom (rows (snd (loadFileContent demo_env ''data/dup.dat64'' init_state)) ! 0)) = 1"
  by (simp add: loadFileContent_unfold demo_simps)

text \<open>
  C2 (as amended). Naming keeps the number of headers and every field but the name; a
  header with a name keeps it, and a header with none (null or the empty string) at
  position \<open>i\<close> of the whole header array, named headers counted, gets the name
  \<open>Unnamed i\<close>. So two headers with no name get \<open>Unnamed 0\<close> and \<open>Unnamed 1\<close> when they
  are the first two headers of the array. The names are a function of the array, and
  naming the result again changes nothing.
\<close>

theorem C2_placeholder_is_position:
  "length (assignNames hs) = length hs
   \<and> (\<forall>i < length hs.
         rest (assignNames hs ! i) = rest (hs ! i)
       \<and> name (assignNames hs ! i) =
           (if truthy (name (hs ! i)) then name (hs ! i)
            else Some (''Unnamed '' @ string_of_nat i)))
   \<and> assignNames (assignNames hs) = assignNames hs"
  by (simp add: assignNames_nth assignNames_idem)

text \<open>
  C2, at three headers of which the first two have no name.
\<close>

theorem C2_placeholder_is_position_witness:
  "map name (assignNames [hdr None 0, hdr (Some []) 4, hdr (Some ''A'') 8]) =
     [Some ''Unnamed 0'', Some ''Unnamed 1'', Some ''A'']
   \<and> map rest (assignNames [hdr None 0, hdr (Some []) 4, hdr (Some ''A'') 8]) = [0, 4, 8]"
proof -
  let ?hs = "[hdr None 0, hdr (Some []) 4, hdr (Some ''A'') 8]"
  have t: "\<not> truthy (name (?hs ! 0))" "\<not> truthy (name (?hs ! 1))" "truthy (name (?hs ! 2))"
    by (simp_all add: hdr_def truthy_def)
  have s: "string_of_nat 0 = ''0''" "string_of_nat 1 = ''1''"
    by (simp_all add: string_of_nat.simps digit_char_def)
  from C2_placeholder_is_position [of ?hs]
  have "length (assignNames ?hs) = 3"
    and "\<forall>i < 3. rest (assignNames ?hs ! i) = rest (?hs ! i)
       \<and> name (assignNames ?hs ! i) =
           (if truthy (name (?hs ! i)) then name (?hs ! i)
            else Some (''Unnamed '' @ string_of_nat i))"
    by simp_all
  then have "length (assignNames ?hs) = 3"
    and "name (assignNames ?hs ! 0) = Some ''Unnamed 0''"
    and "name (assignNames ?hs ! 1) = Some ''Unnamed 1''"
    and "name (assignNames ?hs ! 2) = Some ''A''"
    and "rest (assignNames ?hs ! 0) = 0"
    and "rest (assignNames ?hs ! 1) = 4"
    and "rest (assignNames ?hs ! 2) = 8"
    using t s by (simp_all add: hdr_def)
  then show ?thesis
    by (simp add: list_eq_iff_nth_eq less_Suc_eq eval_nat_numeral)
qed

text \<open>
  C2 as stated fails: of two headers with no name that stand around a named one, the
  second is named \<open>Unnamed 2\<close>, not \<open>Unnamed 1\<close>.
\<close>

theorem C2_counterexample:
  "map name (assignNames [hdr None 0, hdr (Some ''A'') 4, hdr None 8]) =
     [Some ''Unnamed 0'', Some ''A'', Some ''Unnamed 2'']"
  by (simp add: demo_simps)

text \<open>
  C3 (as amended). Nothing disambiguates headers that share a name. In every row the
  entry of a name other than \<open>__proto__\<close> holds the cell of the last header with that
  name: the earlier ones are overwritten, and the row has one entry per such name. Under
  the name \<open>__proto__\<close> there is an entry, again with the cell of the last header of
  that name, only when a null cell under an earlier header of that name has taken the
  prototype of the row away; otherwise the name has no entry.
\<close>

theorem C3_last_header_wins:
  assumes "extractRows e dat (hs1 @ h # hs2) = Inr rs"
    and "readColumn e h dat = Inr col"
    and "name h = Some n" and "n \<noteq> []"
    and "\<forall>h' \<in> set hs2. name h' \<noteq> Some n"
    and "i < length rs"
  shows "(rs ! i) n =
           (if n = ''__proto__'' \<and> Null \<notin> set (cells_named e dat hs1 ''__proto__'' i) then None
            else Some (cell_at col i))
       \<and> dom (rs ! i) - {''__proto__''} =
           set (map key_of (filter (\<lambda>h. truthy (name h)) (hs1 @ h # hs2))) - {''__proto__''}
       \<and> (''__proto__'' \<in> dom (rs ! i) \<longleftrightarrow>
            null_then_more (cells_named e dat (hs1 @ h # hs2) ''__proto__'' i))"
proof -
  have row: "rs ! i = row_of e dat (hs1 @ h # hs2) i"
    using assms(1,6) by (rule extractRows_nth)
  have "filter (\<lambda>h. name h = Some n) hs2 = []"
    using assms(5) by (simp add: filter_empty_conv)
  then have cells: "cells_named e dat (hs1 @ h # hs2) n i = cells_named e dat hs1 n i @ [cell_at col i]"
    using assms(2,3) by (simp add: cells_named_def column_of_def)
  have 1: "(rs ! i) n =
      (if n = ''__proto__'' \<and> Null \<notin> set (cells_named e dat hs1 ''__proto__'' i) then None
       else Some (cell_at col i))"
    using assms(4) by (auto simp: row row_of_def cells null_then_more_snoc)
  have 2: "dom (rs ! i) - {''__proto__''} =
      set (map key_of (filter (\<lambda>h. truthy (name h)) (hs1 @ h # hs2))) - {''__proto__''}"
    unfolding row by (rule dom_row_of(1))
  have 3: "''__proto__'' \<in> dom (rs ! i) \<longleftrightarrow>
      null_then_more (cells_named e dat (hs1 @ h # hs2) ''__proto__'' i)"
    unfolding row by (rule dom_row_of(2))
  from 1 2 3 show ?thesis by blast
qed

text \<open>
  C3, at two headers named A over the columns at offsets 0 and 4 (the one entry of row
  1 holds the cell of the second header), and at two headers named \<open>__proto__\<close> over a
  table whose first row has a null first cell and whose second row has none: the first
  row has the entry of the second header, the second row has no entry.
\<close>

theorem C3_last_header_wins_witness:
  "extractRows demo_env (Some demo_table) [hdr (Some ''A'') 0, hdr (Some ''A'') 4] =
     Inr [[''A'' \<mapsto> Val 10], [''A'' \<mapsto> Val 20], [''A'' \<mapsto> Val 30]]
   \<and> ([[''A'' \<mapsto> Val 10], [''A'' \<mapsto> Val 20], [''A'' \<mapsto> Val (30 :: nat)]] ! 1) ''A'' =
       Some (cell_at [Val 10, Val 20, Val 30] 1)
   \<and> extractRows demo_env (Some null_table)
       [hdr (Some ''__proto__'') 0, hdr (Some ''__proto__'') 4] =
     Inr [[''__proto__'' \<mapsto> Val 5], Map.empty]
   \<and> ([[''__proto__'' \<mapsto> Val (5 :: nat)], Map.empty] ! 0) ''__proto__'' = Some (cell_at [Val 5, Null] 0)
   \<and> ([[''__proto__'' \<mapsto> Val (5 :: nat)], Map.empty] ! 1) ''__proto__'' = None"
proof -
  let ?rs = "[[''A'' \<mapsto> Val 10], [''A'' \<mapsto> Val 20], [''A'' \<mapsto> Val (30 :: nat)]]"
  let ?ps = "[[''__proto__'' \<mapsto> Val (5 :: nat)], Map.empty]"
  have 1: "extractRows demo_env (Some demo_table) ([hdr (Some ''A'') 0] @ hdr (Some ''A'') 4 # []) =
      Inr ?rs"
    and 2: "readColumn demo_env (hdr (Some ''A'') 4) (Some demo_table) = Inr [Val 10, Val 20, Val 30]"
    and 3: "name (hdr (Some ''A'') 4) = Some ''A''"
    and 4: "''A'' \<noteq> []"
    and 5: "\<forall>h' \<in> set []. name (h' :: nat header) \<noteq> Some ''A''"
    and 6: "1 < length ?rs"
    by (simp_all add: demo_simps)
  have a: "extractRows demo_env (Some null_table)
        ([hdr (Some ''__proto__'') 0] @ hdr (Some ''__proto__'') 4 # []) = Inr ?ps"
    and b: "readColumn demo_env (hdr (Some ''__proto__'') 4) (Some null_table) = Inr [Val 5, Null]"
    and c: "name (hdr (Some ''__proto__'') 4) = Some ''__proto__''"
    and d: "''__proto__'' \<noteq> []"
    and e: "\<forall>h' \<in> set []. name (h' :: nat header) \<noteq> Some ''__proto__''"
    and f: "0 < length ?ps" and g: "1 < length ?ps"
    by (simp_all add: demo_simps null_table_def)
  have c0: "cells_named demo_env (Some null_table) [hdr (Some ''__proto__'') 0] ''__proto__'' 0 = [Null]"
    and c1: "cells_named demo_env (Some null_table) [hdr (Some ''__proto__'') 0] ''__proto__'' 1 = [Val 6]"
    by (simp_all add: demo_simps null_table_def cells_named_def column_of_def)
  from C3_last_header_wins [OF 1 2 3 4 5 6]
  have x: "(?rs ! 1) ''A'' = Some (cell_at [Val 10, Val 20, Val 30] 1)"
    by simp
  from C3_last_header_wins [OF a b c d e f]
  have y: "(?ps ! 0) ''__proto__'' = Some (cell_at [Val 5, Null] 0)"
    by (simp add: c0)
  from C3_last_header_wins [OF a b c d e g]
  have z: "(?ps ! 1) ''__proto__'' = None"
    by (simp add: c1)
  from 1 a x y z show ?thesis
    by (simp only: append_Cons append_Nil simp_thms)
qed

text \<open>
  C3 as stated fails: a header named \<open>Unnamed 1\<close> followed by a header with no name
  gives two headers named \<open>Unnamed 1\<close>, and every row has the one entry of the second.
\<close>

theorem C3_counterexample:
  "map name (headers (snd (loadFileContent demo_env ''data/anon.dat64'' init_state))) =
     [Some ''Unnamed 1'', Some ''Unnamed 1'']
   \<and> rows (snd (loadFileContent demo_env ''data/anon.dat64'' init_state)) =
       [[''Unnamed 1'' \<mapsto> Val 10], [''Unnamed 1'' \<mapsto> Val 20], [''Unnamed 1'' \<mapsto> Val 30]]"
  by (simp add: loadFileContent_unfold demo_simps)

text \<open>
  C4 (as amended). When \<open>fromSerializedHeaders\<close> returns no result, \<open>loadFileContent\<close>
  resolves as it does on success, after one warning that names the schema. No row is
  extracted: \<open>rows\<close> and \<open>headers\<close> keep the values they had before the call. The
  loading flag, set at the start of the call, stays set, so the template shows the
  loading image and not the table.
\<close>

theorem C4_mismatch_is_silent:
  assumes "index_loadFileContent e p = Inr b"
    and "readDatFile e p (Some b) = Inr d"
    and "analyzeDatFile e d = Inr c"
    and "findByName e (schemaName p) = Inr sh"
    and "fromSerializedHeaders e sh c (Some d) = Inr None"
  shows "fst (loadFileContent e p st) = Settled Resolved
       \<and> warnings (snd (loadFileContent e p st)) =
           warnings st @ [''Invalid headers for file: '' @ schemaName p]
       \<and> rows (snd (loadFileContent e p st)) = rows st
       \<and> headers (snd (loadFileContent e p st)) = headers st
       \<and> loading (snd (loadFileContent e p st))
       \<and> rendered (snd (loadFileContent e p st)) = Loading_image"
  unfolding loadFileContent_resume9
  by (simp add: load_mismatch [OF assms] rendered_def)

text \<open>
  C4, at the schema whose second header stands at offset 8 of rows of eight bytes.
\<close>

theorem C4_mismatch_is_silent_witness:
  "fst (loadFileContent demo_env ''data/bad.dat64'' init_state) = Settled Resolved
   \<and> warnings (snd (loadFileContent demo_env ''data/bad.dat64'' init_state)) =
       [''Invalid headers for file: bad'']
   \<and> rows (snd (loadFileContent demo_env ''data/bad.dat64'' init_state)) = []
   \<and> rendered (snd (loadFileContent demo_env ''data/bad.dat64'' init_state)) = Loading_image"
proof -
  let ?hs = "[hdr (Some ''A'') 0, hdr (Some ''B'') 8]"
  have 1: "index_loadFileContent demo_env ''data/bad.dat64'' = Inr demo_table"
    and 2: "readDatFile demo_env ''data/bad.dat64'' (Some demo_table) = Inr demo_table"
    and 3: "analyzeDatFile demo_env demo_table = Inr ()"
    and 4: "findByName demo_env (schemaName ''data/bad.dat64'') = Inr ?hs"
    and 5: "fromSerializedHeaders demo_env ?hs () (Some demo_table) = Inr None"
    by (simp_all add: demo_simps)
  have n: "schemaName ''data/bad.dat64'' = ''bad''"
    by (simp add: schemaName_def)
  from C4_mismatch_is_silent [OF 1 2 3 4 5, of init_state]
  show ?thesis
    by (simp add: n init_state_def)
qed

text \<open>
  C4 as stated fails: after the table of A and B has been loaded, loading the file whose
  headers are refused resolves with no failure, and \<open>rows\<close> and \<open>headers\<close> still hold
  the three rows and the two headers of the file loaded before.
\<close>

theorem C4_counterexample:
  "fst (loadFileContent demo_env ''data/bad.dat64''
          (snd (loadFileContent demo_env ''data/ab.dat64'' init_state))) = Settled Resolved
   \<and> rows (snd (loadFileContent demo_env ''data/bad.dat64''
          (snd (loadFileContent demo_env ''data/ab.dat64'' init_state)))) =
       [[''A'' \<mapsto> Val 1, ''B'' \<mapsto> Val 10], [''A'' \<mapsto> Val 2, ''B'' \<mapsto> Val 20],
        [''A'' \<mapsto> Val 3, ''B'' \<mapsto> Val 30]]
   \<and> map name (headers (snd (loadFileContent demo_env ''data/bad.dat64''
          (snd (loadFileContent demo_env ''data/ab.dat64'' init_state))))) = [Some ''A'', Some ''B'']"
  by (simp add: loadFileContent_unfold demo_simps)

text \<open>
  C5. The schema name is computed by removing the first occurrence of \<open>data/\<close> and
  then the first occurrence of \<open>.dat64\<close>, wherever they stand: for a path in which
  \<open>data/\<close> is not at the front, or \<open>.dat64\<close> occurs before the end, the result is
  not the path with the prefix stripped from the front and the extension from the end.
  (\<open>schemaName_plain\<close> above is the case where the two agree.)
\<close>

theorem C5_schemaName_inner_occurrence:
  "schemaName ''metadata/stats.dat64'' = ''metastats''
   \<and> spec_schemaName ''metadata/stats.dat64'' = ''metadata/stats''
   \<and> schemaName ''data/a.dat64b.dat64'' = ''ab.dat64''
   \<and> spec_schemaName ''data/a.dat64b.dat64'' = ''a.dat64b''"
  by (simp add: schemaName_def spec_schemaName_def strip_prefix_def strip_suffix_def
        suffix_to_prefix)

text \<open>
  C6. Two calls of \<open>loadFileContent\<close> for the same path with the same collaborators,
  whatever the component's variables hold when each call starts, end the same way; and
  when the first ends with a decoded table (the loading flag cleared), the second ends
  with the same rows, the same headers and the same table shown.
\<close>

theorem C6_decode_deterministic:
  "fst (loadFileContent e p st2) = fst (loadFileContent e p st1)
   \<and> (\<not> loading (snd (loadFileContent e p st1)) \<longrightarrow>
         rows (snd (loadFileContent e p st2)) = rows (snd (loadFileContent e p st1))
       \<and> headers (snd (loadFileContent e p st2)) = headers (snd (loadFileContent e p st1))
       \<and> rendered (snd (loadFileContent e p st2)) = rendered (snd (loadFileContent e p st1)))"
  by (simp add: loadFileContent_unfold rendered_def split: sum.splits option.splits)

text \<open>
  C6, at the table of A and B loaded from the initial state and loaded after another
  file.
\<close>

theorem C6_decode_deterministic_witness:
  "\<not> loading (snd (loadFileContent demo_env ''data/ab.dat64'' init_state))
   \<and> rows (snd (loadFileContent demo_env ''data/ab.dat64''
         (snd (loadFileContent demo_env ''data/cd.dat64'' init_state)))) =
       rows (snd (loadFileContent demo_env ''data/ab.dat64'' init_state))
   \<and> headers (snd (loadFileContent demo_env ''data/ab.dat64''
         (snd (loadFileContent demo_env ''data/cd.dat64'' init_state)))) =
       headers (snd (loadFileContent demo_env ''data/ab.dat64'' init_state))"
proof -
  have l: "\<not> loading (snd (loadFileContent demo_env ''data/ab.dat64'' init_state))"
    by (simp add: loadFileContent_unfold demo_simps)
  from C6_decode_deterministic [of demo_env "''data/ab.dat64''"
      "snd (loadFileContent demo_env ''data/cd.dat64'' init_state)" init_state] l
  show ?thesis
    by blast
qed

text \<open>
  C7 (as amended). When every header has a name and the names are pairwise distinct,
  the rows extracted for the headers in any other order are the same maps from names to
  cells.
\<close>

theorem C7_order_independent_for_distinct_names:
  assumes "mset hs' = mset hs"
    and "\<forall>h \<in> set hs. truthy (name h)"
    and "distinct (map name hs)"
    and "extractRows e dat (assignNames hs) = Inr rs"
  shows "extractRows e dat (assignNames hs') = Inr rs"
proof -
  have s: "set hs' = set hs"
    using assms(1) by (rule mset_eq_setD)
  have n: "assignNames hs = hs" and n': "assignNames hs' = hs'"
    using assms(2) s by (simp_all add: assignNames_truthy_id)
  from extractRows_Inr [OF assms(4) [unfolded n]] obtain d
    where d: "dat = Some d"
      and ok: "\<forall>h \<in> set hs. \<not> isl (readColumn e h dat)"
      and rs: "rs = map (row_of e dat hs) [0..<rowCount e d]"
    by blast
  have "\<forall>h \<in> set hs'. \<not> isl (readColumn e h (Some d))"
    using ok s d by simp
  then have "extractRows e (Some d) hs' = Inr (map (row_of e (Some d) hs') [0..<rowCount e d])"
    by (rule extractRows_ok)
  moreover have "row_of e (Some d) hs' i = row_of e (Some d) hs i" for i
    using assms(1,3) by (rule row_of_perm)
  ultimately show ?thesis
    by (simp add: n' d rs)
qed

text \<open>
  C7, at the headers B and A in this order.
\<close>

theorem C7_order_independent_for_distinct_names_witness:
  "extractRows demo_env (Some demo_table) (assignNames [hdr (Some ''B'') 4, hdr (Some ''A'') 0]) =
     Inr [[''A'' \<mapsto> Val 1, ''B'' \<mapsto> Val 10], [''A'' \<mapsto> Val 2, ''B'' \<mapsto> Val 20],
          [''A'' \<mapsto> Val 3, ''B'' \<mapsto> Val 30]]"
proof -
  let ?hs = "[hdr (Some ''A'') 0, hdr (Some ''B'') 4]"
  have 1: "mset [hdr (Some ''B'') 4, hdr (Some ''A'') 0] = mset ?hs"
    and 2: "\<forall>h \<in> set ?hs. truthy (name h)"
    and 3: "distinct (map name ?hs)"
    and 4: "extractRows demo_env (Some demo_table) (assignNames ?hs) =
      Inr [[''A'' \<mapsto> Val 1, ''B'' \<mapsto> Val 10], [''A'' \<mapsto> Val 2, ''B'' \<mapsto> Val 20],
           [''A'' \<mapsto> Val 3, ''B'' \<mapsto> Val 30]]"
    by (simp_all add: demo_simps)
  from C7_order_independent_for_distinct_names [OF 1 2 3 4]
  show ?thesis .
qed

text \<open>
  C7 as stated fails: a header with no name at offset 0 is named \<open>Unnamed 0\<close> before
  the header B and \<open>Unnamed 1\<close> after it, so the rows of the two orders have different
  keys.
\<close>

theorem C7_counterexample:
  "mset [hdr (Some ''B'') 4, hdr None 0] = mset [hdr None 0, hdr (Some ''B'') 4]
   \<and> extractRows demo_env (Some demo_table) (assignNames [hdr None 0, hdr (Some ''B'') 4]) =
       Inr [[''Unnamed 0'' \<mapsto> Val 1, ''B'' \<mapsto> Val 10], [''Unnamed 0'' \<mapsto> Val 2, ''B'' \<mapsto> Val 20],
            [''Unnamed 0'' \<mapsto> Val 3, ''B'' \<mapsto> Val 30]]
   \<and> extractRows demo_env (Some demo_table) (assignNames [hdr (Some ''B'') 4, hdr None 0]) =
       Inr [[''B'' \<mapsto> Val 10, ''Unnamed 1'' \<mapsto> Val 1], [''B'' \<mapsto> Val 20, ''Unnamed 1'' \<mapsto> Val 2],
            [''B'' \<mapsto> Val 30, ''Unnamed 1'' \<mapsto> Val 3]]
   \<and> [''Unnamed 0'' \<mapsto> Val (1 :: nat), ''B'' \<mapsto> Val 10] ''Unnamed 0'' = Some (Val 1)
   \<and> [''B'' \<mapsto> Val (10 :: nat), ''Unnamed 1'' \<mapsto> Val 1] ''Unnamed 0'' = None"
  by (simp add: demo_simps)

text \<open>
  C8 (as amended). No call of \<open>loadFileContent\<close> is abandoned. Let a call for a file
  that decodes be suspended at its first await while any other events take place (later
  clicks, and later calls going on or ending); when it then runs to its end, it resolves
  and its rows and headers are the table shown.
\<close>

theorem C8_superseded_call_still_delivers:
  assumes "index_loadFileContent e p = Inr b"
    and "readDatFile e p (Some b) = Inr d"
    and "analyzeDatFile e d = Inr c"
    and "findByName e (schemaName p) = Inr sh"
    and "fromSerializedHeaders e sh c (Some d) = Inr (Some hs)"
    and "extractRows e (Some d) (assignNames hs) = Inr rs"
    and "Resume 0 \<notin> set evs"
  shows "calls (run e (Click p # evs @ replicate 9 (Resume 0)) \<lparr>component = st, calls = []\<rparr>) ! 0 =
           Settled Resolved
       \<and> rendered (component (run e (Click p # evs @ replicate 9 (Resume 0))
             \<lparr>component = st, calls = []\<rparr>)) = DataTable rs (assignNames hs)"
proof -
  define sy2 where "sy2 = run e evs (fire e (Click p) \<lparr>component = st, calls = []\<rparr>)"
  have 1: "0 < length (calls (fire e (Click p) \<lparr>component = st, calls = []\<rparr>))"
    and a: "calls (fire e (Click p) \<lparr>component = st, calls = []\<rparr>) ! 0 =
      Await_index_loadFileContent p"
    by (simp_all add: call_loadFileContent_def)
  from run_keeps [OF 1 assms(7), of e] a
  have 2: "0 < length (calls sy2)" and t: "calls sy2 ! 0 = Await_index_loadFileContent p"
    by (simp_all add: sy2_def)
  have "run e (Click p # evs @ replicate 9 (Resume 0)) \<lparr>component = st, calls = []\<rparr> =
      run e (replicate 9 (Resume 0)) sy2"
    by (simp only: run_Cons run_append sy2_def)
  also have "\<dots> =
      \<lparr>component = snd (((\<lambda>(t, s). resume e t s) ^^ 9) (calls sy2 ! 0, component sy2)),
       calls = (calls sy2)[0 := fst (((\<lambda>(t, s). resume e t s) ^^ 9) (calls sy2 ! 0, component sy2))]\<rparr>"
    using 2 by (rule run_resumes)
  finally have fin: "run e (Click p # evs @ replicate 9 (Resume 0)) \<lparr>component = st, calls = []\<rparr> =
      \<lparr>component = snd (((\<lambda>(t, s). resume e t s) ^^ 9) (calls sy2 ! 0, component sy2)),
       calls = (calls sy2)[0 := fst (((\<lambda>(t, s). resume e t s) ^^ 9) (calls sy2 ! 0, component sy2))]\<rparr>" .
  show ?thesis
    unfolding fin t load_decoded [OF assms(1-6)]
    using 2 by (simp add: rendered_def)
qed

text \<open>
  C8, at a call for the table of A and B, overtaken by a whole call for the table of C
  and D.
\<close>

theorem C8_superseded_call_still_delivers_witness:
  "rendered (component (run demo_env
      (Click ''data/ab.dat64'' # (Click ''data/cd.dat64'' # replicate 9 (Resume 1))
         @ replicate 9 (Resume 0))
      \<lparr>component = init_state, calls = []\<rparr>)) =
     DataTable [[''A'' \<mapsto> Val 1, ''B'' \<mapsto> Val 10], [''A'' \<mapsto> Val 2, ''B'' \<mapsto> Val 20],
                [''A'' \<mapsto> Val 3, ''B'' \<mapsto> Val 30]]
       [hdr (Some ''A'') 0, hdr (Some ''B'') 4]"
proof -
  have 7: "Resume 0 \<notin> set (Click ''data/cd.dat64'' # replicate 9 (Resume 1))"
    by simp
  have n: "assignNames [hdr (Some ''A'') 0, hdr (Some ''B'') 4] = [hdr (Some ''A'') 0, hdr (Some ''B'') 4]"
    by (simp add: demo_simps)
  from C8_superseded_call_still_delivers [OF demo_ab 7, of init_state]
  show ?thesis
    by (simp only: n)
qed

text \<open>
  C8 as stated fails: the file of A and B is clicked, then the file of C and D, whose
  call runs to its end and shows its table; the first call then goes on and replaces
  the table shown by its own.
\<close>

theorem C8_counterexample:
  "rendered (component (run demo_env
      (Click ''data/ab.dat64'' # Click ''data/cd.dat64'' # replicate 9 (Resume 1))
      \<lparr>component = init_state, calls = []\<rparr>)) =
     DataTable [[''C'' \<mapsto> Val 7, ''D'' \<mapsto> Val 70]] [hdr (Some ''C'') 0, hdr (Some ''D'') 4]
   \<and> rendered (component (run demo_env (replicate 9 (Resume 0))
        (run demo_env
          (Click ''data/ab.dat64'' # Click ''data/cd.dat64'' # replicate 9 (Resume 1))
          \<lparr>component = init_state, calls = []\<rparr>))) =
     DataTable [[''A'' \<mapsto> Val 1, ''B'' \<mapsto> Val 10], [''A'' \<mapsto> Val 2, ''B'' \<mapsto> Val 20],
                [''A'' \<mapsto> Val 3, ''B'' \<mapsto> Val 30]]
       [hdr (Some ''A'') 0, hdr (Some ''B'') 4]"
proof -
  let ?sy = "run demo_env (Click ''data/ab.dat64'' # Click ''data/cd.dat64'' # replicate 9 (Resume 1))
      \<lparr>component = init_state, calls = []\<rparr>"
  let ?begin = "\<lparr>component = init_state\<lparr>loading := True\<rparr>,
       calls = [Await_index_loadFileContent ''data/ab.dat64'',
                Await_index_loadFileContent ''data/cd.dat64'']\<rparr>
     :: (nat list list, nat list list, unit, nat, nat) system"
  have s: "?sy = run demo_env (replicate 9 (Resume 1)) ?begin"
    by (simp add: run_Cons call_loadFileContent_def)
  have 1: "1 < length (calls ?begin)" and 0: "0 < length (calls ?begin)"
    by simp_all
  have mid: "?sy =
      \<lparr>component = init_state\<lparr>loading := False, fileContent := Some [[7, 0, 0, 0, 70, 0, 0, 0]],
           datFile := Some [[7, 0, 0, 0, 70, 0, 0, 0]],
           headers := [hdr (Some ''C'') 0, hdr (Some ''D'') 4],
           rows := [[''C'' \<mapsto> Val 7, ''D'' \<mapsto> Val 70]]\<rparr>,
       calls = [Await_index_loadFileContent ''data/ab.dat64'', Settled Resolved]\<rparr>"
    unfolding s run_resumes [OF 1]
    by (simp add: resume9 demo_simps)
  show ?thesis
    unfolding mid
    by (simp add: run_resumes resume9 rendered_def demo_simps)
qed

text \<open>
  C9. After \<open>loadDirContents\<close> the current path is the directory, the list of
  subdirectories is the one the index returned, and the list of files is the one the
  index returned, in its order, without the files that do not end with \<open>.dat64\<close>; both
  lists are empty when the index returns nothing. With an empty search term the files
  shown are this list of files.
\<close>

theorem C9_only_dat64_files_listed:
  "currentPath (loadDirContents e p st) = p
   \<and> (case getDirContent e p of
         None \<Rightarrow> dirContents (loadDirContents e p st) = \<lparr>files = [], dirs = []\<rparr>
       | Some c \<Rightarrow>
           dirs (dirContents (loadDirContents e p st)) = dirs c
         \<and> files (dirContents (loadDirContents e p st)) =
             filter (\<lambda>file. suffix ''.dat64'' file) (files c)
         \<and> set (files (dirContents (loadDirContents e p st))) =
             {file \<in> set (files c). suffix ''.dat64'' file}
         \<and> (searchTerm st = [] \<longrightarrow>
               filteredFiles (loadDirContents e p st) =
                 filter (\<lambda>file. suffix ''.dat64'' file) (files c)))"
  by (simp add: loadDirContents_def endsWith_def filteredFiles_def Let_def split: option.splits)

text \<open>
  C9, at a directory of three files and one subdirectory, and at a directory the index
  does not know.
\<close>

theorem C9_only_dat64_files_listed_witness:
  "dirContents (loadDirContents demo_env ''data'' init_state) =
     \<lparr>files = [''data/ab.dat64'', ''data/cd.dat64''], dirs = [''data/french'']\<rparr>
   \<and> dirContents (loadDirContents demo_env ''data/french'' init_state) = \<lparr>files = [], dirs = []\<rparr>
   \<and> filteredFiles (loadDirContents demo_env ''data'' init_state) =
       [''data/ab.dat64'', ''data/cd.dat64'']"
  using C9_only_dat64_files_listed [of demo_env "''data''" init_state]
    C9_only_dat64_files_listed [of demo_env "''data/french''" init_state]
  by (simp add: demo_env_def init_state_def suffix_to_prefix)

text \<open>
  C10. From a current path that is not empty and has no \<open>/\<close>, \<open>goUp\<close> loads the
  root directory (the empty path); from the empty path it changes nothing.
\<close>

theorem C10_goUp_top_level_and_root:
  "(currentPath st \<noteq> [] \<and> CHR ''/'' \<notin> set (currentPath st) \<longrightarrow>
      goUp e st = loadDirContents e [] st \<and> currentPath (goUp e st) = [])
   \<and> (currentPath st = [] \<longrightarrow> goUp e st = st)"
  by (simp add: goUp_def split_str_no_sep loadDirContents_def Let_def)

text \<open>
  C10, from the directory \<open>data\<close> and from the root.
\<close>

theorem C10_goUp_top_level_and_root_witness:
  "goUp demo_env (loadDirContents demo_env ''data'' init_state) =
     loadDirContents demo_env [] (loadDirContents demo_env ''data'' init_state)
   \<and> currentPath (goUp demo_env (loadDirContents demo_env ''data'' init_state)) = []
   \<and> dirContents (goUp demo_env (loadDirContents demo_env ''data'' init_state)) =
       \<lparr>files = [], dirs = []\<rparr>
   \<and> goUp demo_env (loadDirContents demo_env [] init_state) =
       loadDirContents demo_env [] init_state"
proof -
  have 1: "currentPath (loadDirContents demo_env ''data'' init_state) = ''data''"
    and 2: "currentPath (loadDirContents demo_env [] init_state) = []"
    by (simp_all only: loadDirContents_currentPath)
  have 3: "dirContents (loadDirContents demo_env [] st) = \<lparr>files = [], dirs = []\<rparr>"
    for st :: "(nat list list, nat list list, nat, nat) state"
    by (simp add: loadDirContents_def Let_def demo_env_def)
  from C10_goUp_top_level_and_root [of "loadDirContents demo_env ''data'' init_state" demo_env]
    C10_goUp_top_level_and_root [of "loadDirContents demo_env [] init_state" demo_env]
  show ?thesis
    by (simp add: 1 2 3 loadDirContents_currentPath)
qed

end
